theory Spec2Isabelle
  imports Complex_Main
begin

section \<open>JavaScript numbers\<close>

text \<open>
  The forecasting engine (\<^verbatim>\<open>utils/math.ts\<close>) and the collection script
  (\<^verbatim>\<open>scripts/fetch_youtube.js\<close>) compute with JavaScript numbers. A number is
  modelled as an exact real or \<open>NaN\<close>: arithmetic is exact (no rounding, no overflow,
  hence no infinity), while \<open>NaN\<close> is kept because the code meets it (the time value
  of an Invalid Date) and guards against it (\<^verbatim>\<open>isFinite\<close>, \<^verbatim>\<open>x || d\<close>).
  Every comparison with \<open>NaN\<close> is false, as in the language. The properties below
  are those that do not rest on the rounding of the double-precision arithmetic:
  orderings, signs, the values of integer time arithmetic, and which entries and
  points there are.

  Division by zero cannot be reached in the code modelled here: every divisor is a
  non-zero constant or is guarded (\<^verbatim>\<open>dt <= 0\<close>, \<^verbatim>\<open>Math.max(0.0001, ...)\<close>,
  \<^verbatim>\<open>Math.abs(denom) > 1e-9\<close>, \<^verbatim>\<open>... || 1\<close>, \<^verbatim>\<open>SStot > 1e-9\<close>,
  \<^verbatim>\<open>deltaM <= 0\<close>) or is a sum of positive weights. The model gives it the value
  \<open>NaN\<close>.
\<close>

datatype num = Num real | NaN

instantiation num :: "{plus, minus, times, inverse}"
begin

fun plus_num :: "num \<Rightarrow> num \<Rightarrow> num" where
  "plus_num (Num a) (Num b) = Num (a + b)"
| "plus_num _ _ = NaN"

fun minus_num :: "num \<Rightarrow> num \<Rightarrow> num" where
  "minus_num (Num a) (Num b) = Num (a - b)"
| "minus_num _ _ = NaN"

fun times_num :: "num \<Rightarrow> num \<Rightarrow> num" where
  "times_num (Num a) (Num b) = Num (a * b)"
| "times_num _ _ = NaN"

fun divide_num :: "num \<Rightarrow> num \<Rightarrow> num" where
  "divide_num (Num a) (Num b) = (if b = 0 then NaN else Num (a / b))"
| "divide_num _ _ = NaN"

fun inverse_num :: "num \<Rightarrow> num" where
  "inverse_num (Num a) = (if a = 0 then NaN else Num (1 / a))"
| "inverse_num NaN = NaN"

instance ..

end

text \<open>The comparisons \<^verbatim>\<open><\<close>, \<^verbatim>\<open><=\<close>, \<^verbatim>\<open>>\<close> of two numbers.\<close>

fun lt :: "num \<Rightarrow> num \<Rightarrow> bool" where
  "lt (Num a) (Num b) = (a < b)"
| "lt _ _ = False"

fun le :: "num \<Rightarrow> num \<Rightarrow> bool" where
  "le (Num a) (Num b) = (a \<le> b)"
| "le _ _ = False"

fun gt :: "num \<Rightarrow> num \<Rightarrow> bool" where
  "gt (Num a) (Num b) = (a > b)"
| "gt _ _ = False"

text \<open>Truthiness of a number, and \<^verbatim>\<open>x || d\<close> on numbers.\<close>

fun truthy :: "num \<Rightarrow> bool" where
  "truthy (Num a) = (a \<noteq> 0)"
| "truthy NaN = False"

definition orElse :: "num \<Rightarrow> num \<Rightarrow> num" where
  "orElse x d = (if truthy x then x else d)"

fun isFinite :: "num \<Rightarrow> bool" where
  "isFinite (Num a) = True"
| "isFinite NaN = False"

fun Math_abs :: "num \<Rightarrow> num" where
  "Math_abs (Num a) = Num \<bar>a\<bar>"
| "Math_abs NaN = NaN"

fun Math_max :: "num \<Rightarrow> num \<Rightarrow> num" where
  "Math_max (Num a) (Num b) = Num (max a b)"
| "Math_max _ _ = NaN"

fun Math_exp :: "num \<Rightarrow> num" where
  "Math_exp (Num a) = Num (exp a)"
| "Math_exp NaN = NaN"

fun Math_sign :: "num \<Rightarrow> num" where
  "Math_sign (Num a) = Num (sgn a)"
| "Math_sign NaN = NaN"

text \<open>\<^verbatim>\<open>Math.round\<close> rounds to the nearest integer, a tie upwards.\<close>

fun Math_round :: "num \<Rightarrow> num" where
  "Math_round (Num a) = Num (of_int \<lfloor>a + 1/2\<rfloor>)"
| "Math_round NaN = NaN"

section \<open>Dates and history entries\<close>

text \<open>
  A \<^verbatim>\<open>Date\<close> object holds a time value: an integral number of milliseconds since the
  epoch, or \<open>NaN\<close> (an Invalid Date, which is still a truthy object). The range limit
  of time values is modelled where a date is made from a number (\<open>newDate\<close>), not in
  the setters, which move a date by less than 31 minutes.
\<close>

datatype jsdate = Date int | InvalidDate

fun getTime :: "jsdate \<Rightarrow> num" where
  "getTime (Date ms) = Num (of_int ms)"
| "getTime InvalidDate = NaN"

text \<open>
  \<^verbatim>\<open>new Date(x)\<close> for a number \<open>x\<close>: a time value beyond \<open>8.64e15\<close> milliseconds gives
  an Invalid Date, any other is truncated towards zero.
\<close>

definition toInteger :: "real \<Rightarrow> int" where
  "toInteger x = (if 0 \<le> x then \<lfloor>x\<rfloor> else \<lceil>x\<rceil>)"

fun newDate :: "num \<Rightarrow> jsdate" where
  "newDate (Num x) = (if \<bar>x\<bar> > 8640000000000000 then InvalidDate else Date (toInteger x))"
| "newDate NaN = InvalidDate"

text \<open>
  The interface \<^verbatim>\<open>HistoryEntry\<close> of \<^verbatim>\<open>src/types\<close>:
  \<^verbatim>\<open>{ datetime?: string; date?: string; views: number }\<close>, with the field
  \<^verbatim>\<open>predicted\<close> that the collection script writes and reads (absent is false).
  A timestamp string is represented by what the code does with it: \<open>None\<close> when the
  field is absent or the empty string (falsy), and otherwise \<open>Some d\<close> where \<open>d\<close> is
  the object \<^verbatim>\<open>new Date(h.datetime)\<close>, respectively
  \<^verbatim>\<open>new Date(h.date + 'T00:00:00.000Z')\<close>, constructs: \<open>Date ms\<close> for a string that
  parses, \<open>InvalidDate\<close> for one that does not.
\<close>

record HistoryEntry =
  datetime :: "jsdate option"
  date :: "jsdate option"
  views :: num
  predicted :: bool

text \<open>
  \<^verbatim>\<open>h.datetime ? new Date(h.datetime) : (h.date ? new Date(h.date + 'T00:00:00.000Z') : null)\<close>,
  written out in \<^verbatim>\<open>preprocessHistory\<close>, \<^verbatim>\<open>predictValueAt\<close> and
  \<^verbatim>\<open>earliestHistoryTime\<close>, and the body of \<^verbatim>\<open>parseHistoryEntryDatetime\<close> in the
  collection script.
\<close>

definition parseHistoryEntryDatetime :: "HistoryEntry \<Rightarrow> jsdate option" where
  "parseHistoryEntryDatetime h =
     (case datetime h of Some d \<Rightarrow> Some d | None \<Rightarrow> date h)"

section \<open>Sorting with a comparator\<close>

text \<open>
  \<^verbatim>\<open>Array.prototype.sort\<close> is stable, and a comparator result of \<open>NaN\<close> counts as
  0. It is modelled by a stable insertion sort: an element moves behind another only
  when the comparator says it is greater. For a consistent comparator every stable
  sort gives this result; when \<open>NaN\<close> makes the comparator inconsistent the language
  leaves the order to the implementation, and this is one of the permitted orders.
\<close>

fun insertJS :: "('a \<Rightarrow> 'a \<Rightarrow> num) \<Rightarrow> 'a \<Rightarrow> 'a list \<Rightarrow> 'a list" where
  "insertJS cmp x [] = [x]"
| "insertJS cmp x (y # ys) =
     (if gt (cmp x y) (Num 0) then y # insertJS cmp x ys else x # y # ys)"

definition sortJS :: "('a \<Rightarrow> 'a \<Rightarrow> num) \<Rightarrow> 'a list \<Rightarrow> 'a list" where
  "sortJS cmp xs = foldr (insertJS cmp) xs []"

section \<open>The preprocessor\<close>

record Point =
  pt_t :: jsdate
  pt_tsMin :: num
  pt_v :: num

text \<open>The body of the \<^verbatim>\<open>map\<close> in \<^verbatim>\<open>preprocessHistory\<close>; \<open>None\<close> is \<^verbatim>\<open>null\<close>.\<close>

definition toPoint :: "HistoryEntry \<Rightarrow> Point option" where
  "toPoint h =
     (case parseHistoryEntryDatetime h of
        None \<Rightarrow> None
      | Some d \<Rightarrow>
          Some \<lparr>pt_t = d, pt_tsMin = getTime d / Num 60000, pt_v = orElse (views h) (Num 0)\<rparr>)"

text \<open>
  The loop that builds \<^verbatim>\<open>unique\<close>: a point within \<^verbatim>\<open>1e-6\<close> minutes of the last
  kept one replaces it.
\<close>

fun uniqueLoop :: "Point list \<Rightarrow> Point list \<Rightarrow> Point list" where
  "uniqueLoop unique [] = unique"
| "uniqueLoop unique (p # ps) =
     uniqueLoop
       (if unique \<noteq> [] \<and> lt (Math_abs (pt_tsMin (last unique) - pt_tsMin p)) (Num (1 / 1000000))
        then unique[length unique - 1 := p]
        else unique @ [p])
       ps"

definition preprocessHistory :: "HistoryEntry list \<Rightarrow> Point list" where
  "preprocessHistory history =
     (let pts = List.map_filter toPoint history;
          pts = sortJS (\<lambda>a b. getTime (pt_t a) - getTime (pt_t b)) pts
      in uniqueLoop [] pts)"

section \<open>The robust slope estimator\<close>

definition median :: "num list \<Rightarrow> num" where
  "median arr =
     (if arr = [] then Num 0
      else
        let s = sortJS (\<lambda>a b. a - b) arr;
            m = length s div 2
        in if length s mod 2 = 1 then s ! m else (s ! (m - 1) + s ! m) / Num 2)"

definition mad :: "num list \<Rightarrow> num" where
  "mad arr =
     (if arr = [] then Num 0
      else
        let med = median arr;
            abs = map (\<lambda>x. Math_abs (x - med)) arr
        in median abs)"

definition emaOfRates :: "num list \<Rightarrow> num \<Rightarrow> num" where
  "emaOfRates rates alpha =
     (case rates of
        [] \<Rightarrow> Num 0
      | r # rs \<Rightarrow> foldl (\<lambda>s x. alpha * x + (Num 1 - alpha) * s) r rs)"

text \<open>
  The loop that fills \<^verbatim>\<open>segRates\<close> (and, a second time, \<^verbatim>\<open>instRates\<close>): one
  rate for each index \<open>i < pts.length - 1\<close> whose \<open>dt\<close> is not \<open>\<le> 0\<close>.
\<close>

definition segRates :: "Point list \<Rightarrow> num list" where
  "segRates pts =
     concat (map (\<lambda>i.
        let dv = pt_v (pts ! (i + 1)) - pt_v (pts ! i);
            dt = pt_tsMin (pts ! (i + 1)) - pt_tsMin (pts ! i)
        in if le dt (Num 0) then [] else [dv / dt]) [0..<length pts - 1])"

text \<open>The body of the outlier loop: the value of \<^verbatim>\<open>ok\<close> for index \<open>i\<close>.\<close>

definition okIdx :: "Point list \<Rightarrow> num \<Rightarrow> num \<Rightarrow> nat \<Rightarrow> bool" where
  "okIdx pts medRate madRate i =
     (let ok = True;
          ok = (if i < length pts - 1
                then let r = (pt_v (pts ! (i + 1)) - pt_v (pts ! i)) /
                             Math_max (Num (1 / 10000)) (pt_tsMin (pts ! (i + 1)) - pt_tsMin (pts ! i))
                     in if gt (Math_abs (r - medRate)) (Num 6 * madRate) then False else ok
                else ok);
          ok = (if i > 0
                then let r2 = (pt_v (pts ! i) - pt_v (pts ! (i - 1))) /
                              Math_max (Num (1 / 10000)) (pt_tsMin (pts ! i) - pt_tsMin (pts ! (i - 1)))
                     in if gt (Math_abs (r2 - medRate)) (Num 6 * madRate) then False else ok
                else ok)
      in ok)"

definition goodIdx :: "Point list \<Rightarrow> num \<Rightarrow> num \<Rightarrow> nat list" where
  "goodIdx pts medRate madRate = filter (okIdx pts medRate madRate) [0..<length pts]"

text \<open>\<^verbatim>\<open>goodPts\<close>, after the fallback to all points when fewer than two are good.\<close>

definition goodPoints :: "Point list \<Rightarrow> num \<Rightarrow> num \<Rightarrow> Point list" where
  "goodPoints pts medRate madRate =
     (let goodPts = map (\<lambda>i. pts ! i) (goodIdx pts medRate madRate)
      in if length goodPts < 2 then pts else goodPts)"

text \<open>The weight \<^verbatim>\<open>Math.exp(-(Math.abs(x) / HALF_LIFE_MIN) * ln2)\<close>.\<close>

definition weight :: "num \<Rightarrow> num" where
  "weight x = Math_exp ((Num 0 - Math_abs x / Num 180) * Num (ln 2))"

text \<open>The accumulators \<open>(S, Sx, Sy, Sxx, Sxy)\<close> after the regression loop.\<close>

definition regSums :: "num list \<Rightarrow> num list \<Rightarrow> num list \<Rightarrow> num \<times> num \<times> num \<times> num \<times> num" where
  "regSums ws xs ys =
     foldl (\<lambda>(S, Sx, Sy, Sxx, Sxy) i.
        let w = ws ! i; x = xs ! i; y = ys ! i
        in (S + w, Sx + w * x, Sy + w * y, Sxx + w * x * x, Sxy + w * x * y))
       (Num 0, Num 0, Num 0, Num 0, Num 0) [0..<length xs]"

text \<open>\<open>(slope_reg, intercept)\<close>: the weighted least-squares line, or the two-point slope.\<close>

definition regression ::
  "Point list \<Rightarrow> num list \<Rightarrow> num list \<Rightarrow> num \<times> num \<times> num \<times> num \<times> num \<Rightarrow> num \<times> num" where
  "regression goodPts xs ys acc =
     (case acc of (S, Sx, Sy, Sxx, Sxy) \<Rightarrow>
        let denom = S * Sxx - Sx * Sx
        in if gt (Math_abs denom) (Num (1 / 10 ^ 9))
           then let slope = (S * Sxy - Sx * Sy) / denom;
                    intercept = (Sy - slope * Sx) / S
                in (slope, intercept)
           else let totalDv = ys ! (length ys - 1) - ys ! 0;
                    totalDt = orElse (pt_tsMin (goodPts ! (length goodPts - 1)) - pt_tsMin (goodPts ! 0)) (Num 1);
                    slope = totalDv / totalDt;
                    intercept = ys ! (length ys - 1) - slope * xs ! (length xs - 1)
                in (slope, intercept))"

text \<open>\<^verbatim>\<open>Math.pow(x, 2)\<close>.\<close>

definition Math_pow2 :: "num \<Rightarrow> num" where
  "Math_pow2 x = x * x"

text \<open>The accumulators \<open>(SSres, SStot)\<close> after the second loop, and \<^verbatim>\<open>r2\<close>.\<close>

definition resSums :: "num list \<Rightarrow> num list \<Rightarrow> num list \<Rightarrow> num \<Rightarrow> num \<Rightarrow> num \<Rightarrow> num \<times> num" where
  "resSums ws xs ys slope intercept yWeightedMean =
     foldl (\<lambda>(SSres, SStot) i.
        let w = ws ! i; x = xs ! i; y = ys ! i;
            yhat = intercept + slope * x
        in (SSres + w * Math_pow2 (y - yhat), SStot + w * Math_pow2 (y - yWeightedMean)))
       (Num 0, Num 0) [0..<length xs]"

definition rSquared :: "num \<times> num \<Rightarrow> num" where
  "rSquared ss =
     (case ss of (SSres, SStot) \<Rightarrow>
        let r2 = Num 0;
            r2 = (if gt SStot (Num (1 / 10 ^ 9)) then Math_max (Num 0) (Num 1 - SSres / SStot) else r2);
            r2 = (if \<not> isFinite r2 \<or> lt r2 (Num 0) then Num 0 else r2)
        in r2)"

definition confidence :: "num \<Rightarrow> nat \<Rightarrow> num" where
  "confidence r2 n =
     (let nEff = min 6 n;
          conf = r2 * (Num (of_nat nEff) / Num 6);
          conf = (if lt conf (Num 0) then Num 0 else conf);
          conf = (if gt conf (Num 1) then Num 1 else conf)
      in conf)"

text \<open>The blend of the two slopes with its non-negative replacement, and the cap.\<close>

definition blendSlope :: "num \<Rightarrow> num \<Rightarrow> num \<Rightarrow> num" where
  "blendSlope conf slope_r slope_e =
     (let slope = conf * slope_r + (Num 1 - conf) * slope_e
      in if \<not> isFinite slope \<or> lt slope (Num 0)
         then Math_max (Math_max (Math_max (Num 0) slope_e) slope_r) (Num 0)
         else slope)"

definition capSlope :: "num \<Rightarrow> num \<Rightarrow> num" where
  "capSlope medR slope =
     (let maxMultiplier = Num 10;
          cap = Math_max (Math_abs medR * maxMultiplier) (Num 1)
      in if gt (Math_abs slope) cap then Math_sign slope * cap else slope)"

text \<open>
  The regression block: from \<^verbatim>\<open>goodPts\<close> to \<open>(slope_reg, r2)\<close>, through \<^verbatim>\<open>xs\<close>,
  \<^verbatim>\<open>ys\<close>, \<^verbatim>\<open>ws\<close>, the two loops and the intercept. In \<open>computeAdvancedSlope\<close>
  below, \<^verbatim>\<open>xs.length\<close> is written \<open>length goodPts\<close>.
\<close>

definition weightedFit :: "Point list \<Rightarrow> num \<times> num" where
  "weightedFit goodPts =
     (let refTs = pt_tsMin (goodPts ! (length goodPts - 1));
          xs = map (\<lambda>p. pt_tsMin p - refTs) goodPts;
          ys = map pt_v goodPts;
          ws = map weight xs;
          acc = regSums ws xs ys;
          reg = regression goodPts xs ys acc;
          yWeightedMean = (case acc of (S, Sx, Sy, Sxx, Sxy) \<Rightarrow> Sy / S);
          rsq = rSquared (resSums ws xs ys (fst reg) (snd reg) yWeightedMean)
      in (fst reg, rsq))"

record SlopeInfo =
  slope_reg :: num
  slope_ema :: num
  slope_final :: num
  r2 :: num
  nPoints :: nat
  medRate :: num

definition computeAdvancedSlope :: "HistoryEntry list \<Rightarrow> SlopeInfo" where
  "computeAdvancedSlope history =
     (let pts = preprocessHistory history;
          n = length pts
      in if n < 2
         then \<lparr>slope_reg = Num 0, slope_ema = Num 0, slope_final = Num 0, r2 = Num 0,
               nPoints = n, medRate = Num 0\<rparr>
         else
           let rates = segRates pts
           in if length rates = 0
              then \<lparr>slope_reg = Num 0, slope_ema = Num 0, slope_final = Num 0, r2 = Num 0,
                    nPoints = n, medRate = Num 0\<rparr>
              else
                let medR = median rates;
                    madRate = orElse (mad rates) (Num (1 / 10 ^ 6));
                    goodPts = goodPoints pts medR madRate;
                    fit = weightedFit goodPts;
                    instRates = segRates pts;
                    ema = emaOfRates instRates (Num (1 / 2));
                    conf = confidence (snd fit) (length goodPts);
                    final = capSlope medR (blendSlope conf (fst fit) ema)
                in \<lparr>slope_reg = fst fit, slope_ema = ema, slope_final = final, r2 = snd fit,
                     nPoints = length pts, medRate = medR\<rparr>)"

section \<open>The predictor\<close>

definition predictValueAt :: "HistoryEntry list \<Rightarrow> jsdate \<Rightarrow> num" where
  "predictValueAt history targetDate =
     (if history = [] then Num 0
      else
        let lastEntry = history ! (length history - 1);
            lastTime = parseHistoryEntryDatetime lastEntry;
            lastViews = orElse (views lastEntry) (Num 0)
        in case lastTime of
             None \<Rightarrow> lastViews
           | Some lastT \<Rightarrow>
               let slopeInfo = computeAdvancedSlope history;
                   slope = orElse (slope_final slopeInfo) (Num 0);
                   deltaMin = (getTime targetDate - getTime lastT) / Num 60000;
                   pred = lastViews + slope * deltaMin;
                   pred = (if \<not> isFinite pred then lastViews else pred);
                   pred = (if lt pred (Num 0) then Num 0 else pred)
               in Math_round pred)"

section \<open>Half-hour ticks and the delta calculator\<close>

text \<open>
  \<^verbatim>\<open>setSeconds\<close>, \<^verbatim>\<open>getMinutes\<close> and \<^verbatim>\<open>setMinutes\<close> work on local time, which
  depends on the time zone of the environment. A zone is a parameter: the offset of
  local time from UTC (in milliseconds) before its first transition, and its
  transitions in ascending order, each an instant with the offset from that instant
  on. \<open>LocalTime\<close> and \<open>UTC\<close> are the conversions of the language: the offset of an
  instant is that of the last transition not after it; a local time value that a
  transition repeats or skips is read with the offset before the transition.
\<close>

type_synonym zone = "int \<times> (int \<times> int) list"

fun offsetAt :: "int \<Rightarrow> (int \<times> int) list \<Rightarrow> int \<Rightarrow> int" where
  "offsetAt off [] t = off"
| "offsetAt off ((T, off') # trs) t = (if t < T then off else offsetAt off' trs t)"

fun offsetOfLocal :: "int \<Rightarrow> (int \<times> int) list \<Rightarrow> int \<Rightarrow> int" where
  "offsetOfLocal off [] l = off"
| "offsetOfLocal off ((T, off') # trs) l =
     (if l < T + max off off' then off else offsetOfLocal off' trs l)"

definition LocalTime :: "zone \<Rightarrow> int \<Rightarrow> int" where
  "LocalTime tz t = t + offsetAt (fst tz) (snd tz) t"

definition UTC :: "zone \<Rightarrow> int \<Rightarrow> int" where
  "UTC tz l = l - offsetOfLocal (fst tz) (snd tz) l"



fun getMinutes :: "zone \<Rightarrow> jsdate \<Rightarrow> num" where
  "getMinutes tz (Date ms) = Num (of_int (LocalTime tz ms div 60000 mod 60))"
| "getMinutes tz InvalidDate = NaN"

text \<open>\<^verbatim>\<open>d.setSeconds(0, 0)\<close> and \<^verbatim>\<open>d.setMinutes(m)\<close>, as the date they leave in \<open>d\<close>.\<close>

fun setSeconds00 :: "zone \<Rightarrow> jsdate \<Rightarrow> jsdate" where
  "setSeconds00 tz (Date ms) = (let l = LocalTime tz ms in Date (UTC tz (l - l mod 60000)))"
| "setSeconds00 tz InvalidDate = InvalidDate"

fun setMinutes :: "zone \<Rightarrow> int \<Rightarrow> jsdate \<Rightarrow> jsdate" where
  "setMinutes tz m (Date ms) =
     (let l = LocalTime tz ms in Date (UTC tz (l - (l div 60000 mod 60) * 60000 + m * 60000)))"
| "setMinutes tz m InvalidDate = InvalidDate"

text \<open>Strict equality \<^verbatim>\<open>===\<close> of two numbers.\<close>

fun eqq :: "num \<Rightarrow> num \<Rightarrow> bool" where
  "eqq (Num a) (Num b) = (a = b)"
| "eqq _ _ = False"

definition floorToHalfHour :: "zone \<Rightarrow> jsdate \<Rightarrow> jsdate" where
  "floorToHalfHour tz d0 =
     (let d = setSeconds00 tz d0;
          m = getMinutes tz d
      in if eqq m (Num 0) \<or> eqq m (Num 30) then d
         else if lt m (Num 30) then setMinutes tz 0 d
         else setMinutes tz 30 d)"

definition earliestHistoryTime :: "HistoryEntry list \<Rightarrow> jsdate option" where
  "earliestHistoryTime history =
     (if history = [] then None else parseHistoryEntryDatetime (history ! 0))"

text \<open>
  \<^verbatim>\<open>calcDeltaWithPrediction\<close> reads the clock (\<^verbatim>\<open>new Date()\<close>); the instant it reads
  is the parameter \<open>now\<close>, in milliseconds. \<open>targetTick\<close> and \<open>baseTick\<close> are the
  values of its variables of these names.
\<close>

definition targetTick :: "zone \<Rightarrow> int \<Rightarrow> num \<Rightarrow> jsdate" where
  "targetTick tz now days =
     (let target = newDate (getTime (Date now) - days * Num 24 * Num 60 * Num 60 * Num 1000)
      in floorToHalfHour tz target)"

definition baseTick :: "zone \<Rightarrow> int \<Rightarrow> HistoryEntry list \<Rightarrow> num \<Rightarrow> jsdate" where
  "baseTick tz now history days =
     (let firstTime = earliestHistoryTime history
      in case firstTime of
           None \<Rightarrow> targetTick tz now days
         | Some ft \<Rightarrow>
             let firstTick = floorToHalfHour tz ft
             in if lt (getTime (targetTick tz now days)) (getTime firstTick)
                then firstTick else targetTick tz now days)"

definition calcDeltaWithPrediction :: "zone \<Rightarrow> int \<Rightarrow> HistoryEntry list \<Rightarrow> num \<Rightarrow> num" where
  "calcDeltaWithPrediction tz now history days =
     (if history = [] then Num 0
      else
        let nowPred = predictValueAt history (Date now);
            basePred = predictValueAt history (baseTick tz now history days)
        in Math_max (Num 0) (nowPred - basePred))"

section \<open>The gap filler of the collection script\<close>










section \<open>Vocabulary of the properties\<close>


text \<open>All timestamps that are present parse.\<close>

definition validTimes :: "HistoryEntry list \<Rightarrow> bool" where
  "validTimes history = (\<forall>h \<in> set history. parseHistoryEntryDatetime h \<noteq> Some InvalidDate)"

text \<open>
  Devices of the proofs about the preprocessor: the time value of a valid date, the
  points made from a valid date, one turn of the \<^verbatim>\<open>unique\<close> loop on such points, and
  the invariant of that loop.
\<close>

fun msOf :: "jsdate \<Rightarrow> int" where
  "msOf (Date ms) = ms"
| "msOf InvalidDate = 0"

definition validPt :: "Point \<Rightarrow> bool" where
  "validPt p = (pt_t p = Date (msOf (pt_t p)) \<and> pt_tsMin p = Num (of_int (msOf (pt_t p)) / 60000))"

abbreviation ptKey :: "Point \<Rightarrow> int" where
  "ptKey p \<equiv> msOf (pt_t p)"

definition stepU :: "Point list \<Rightarrow> Point \<Rightarrow> Point list" where
  "stepU acc p = (if acc \<noteq> [] \<and> ptKey (last acc) = ptKey p then butlast acc @ [p] else acc @ [p])"

definition loopInv :: "Point list \<Rightarrow> Point list \<Rightarrow> bool" where
  "loopInv acc ps = (sorted_wrt (<) (map ptKey acc) \<and> sorted (map ptKey (acc @ ps)))"

text \<open>
  Devices of the proofs about the slope estimator: the time of a point in minutes and
  the value of a number as reals, the points with a valid time and finite views, and
  the rate of a segment.
\<close>

definition tmin :: "Point \<Rightarrow> real" where
  "tmin p = of_int (msOf (pt_t p)) / 60000"

fun realOf :: "num \<Rightarrow> real" where
  "realOf (Num a) = a"
| "realOf NaN = 0"

definition goodPt :: "Point \<Rightarrow> bool" where
  "goodPt p = (validPt p \<and> isFinite (pt_v p))"

text \<open>The rate of the segment that starts at index i.\<close>

definition segRate :: "Point list \<Rightarrow> nat \<Rightarrow> real" where
  "segRate pts i = (realOf (pt_v (pts ! (i + 1))) - realOf (pt_v (pts ! i))) /
                   (tmin (pts ! (i + 1)) - tmin (pts ! i))"

section \<open>Basic facts\<close>

lemma times_NaN_right [simp]: "a * NaN = NaN"
  by (cases a) simp_all

lemma orElse_Num: "\<exists>x. orElse a (Num d) = Num x"
  by (cases a) (simp_all add: orElse_def)

lemma nth_last: "xs \<noteq> [] \<Longrightarrow> xs ! (length xs - Suc 0) = last xs"
  by (simp add: last_conv_nth)

lemma set_insertJS: "set (insertJS cmp x ys) = insert x (set ys)"
  by (induction ys) auto

lemma set_sortJS: "set (sortJS cmp xs) = set xs"
  by (induction xs) (simp_all add: sortJS_def set_insertJS)

lemma length_insertJS: "length (insertJS cmp x ys) = Suc (length ys)"
  by (induction ys) auto

lemma length_sortJS: "length (sortJS cmp xs) = length xs"
  by (induction xs) (simp_all add: sortJS_def length_insertJS)

lemma set_map_filter: "set (List.map_filter f xs) = {y. \<exists>x\<in>set xs. f x = Some y}"
  by (induction xs) (auto simp: List.map_filter_simps split: option.splits)

section \<open>The preprocessor drops entries without a timestamp\<close>



lemma set_uniqueLoop: "set (uniqueLoop unique ps) \<subseteq> set unique \<union> set ps"
proof (induction ps arbitrary: unique)
  case Nil
  show ?case by simp
next
  case (Cons p ps)
  have "set (unique[length unique - 1 := p]) \<subseteq> insert p (set unique)"
    by (rule set_update_subset_insert)
  with Cons[of "unique[length unique - 1 := p]"] Cons[of "unique @ [p]"]
  show ?case by (auto split: if_splits)
qed




section \<open>The predictor at its anchor\<close>

text \<open>
  C5, as the code has it. When the last entry of a non-empty history has neither a
  \<^verbatim>\<open>datetime\<close> nor a \<^verbatim>\<open>date\<close>, \<^verbatim>\<open>predictValueAt\<close> returns that entry's views
  (\<^verbatim>\<open>last.views || 0\<close>: 0 only when the views are 0 or missing), whatever the target
  time. When its timestamp string is present but does not parse, the result is that
  value floored at 0 and rounded.
\<close>

theorem predictValueAt_unresolved:
  assumes "history \<noteq> []"
  shows "(parseHistoryEntryDatetime (last history) = None \<longrightarrow>
           predictValueAt history target = orElse (views (last history)) (Num 0)) \<and>
         (parseHistoryEntryDatetime (last history) = Some InvalidDate \<longrightarrow>
           predictValueAt history target =
             Math_round (Math_max (Num 0) (orElse (views (last history)) (Num 0))))"
proof -
  obtain x where x: "orElse (views (last history)) (Num 0) = Num x"
    using orElse_Num by blast
  obtain s where s: "orElse (slope_final (computeAdvancedSlope history)) (Num 0) = Num s"
    using orElse_Num by blast
  show ?thesis
    using assms x s
    by (cases "getTime target") (auto simp: predictValueAt_def nth_last Let_def max_def)
qed

theorem predictValueAt_unresolved_witness:
  "predictValueAt [\<lparr>datetime = None, date = None, views = Num 7, predicted = False\<rparr>] (Date 42)
     = Num 7 \<and>
   predictValueAt [\<lparr>datetime = Some InvalidDate, date = None, views = Num 7, predicted = False\<rparr>]
     (Date 42) = Num 7"
  using predictValueAt_unresolved[of
      "[\<lparr>datetime = None, date = None, views = Num 7, predicted = False\<rparr>]" "Date 42"]
    predictValueAt_unresolved[of
      "[\<lparr>datetime = Some InvalidDate, date = None, views = Num 7, predicted = False\<rparr>]" "Date 42"]
  by (simp add: parseHistoryEntryDatetime_def orElse_def)

text \<open>
  C5 as stated fails: for a last entry without a timestamp and with 5 views the result
  is 5, not 0.
\<close>

theorem predictValueAt_unresolved_not_zero:
  "predictValueAt [\<lparr>datetime = None, date = None, views = Num 5, predicted = False\<rparr>] (Date 0)
     = Num 5 \<and>
   predictValueAt [\<lparr>datetime = None, date = None, views = Num 5, predicted = False\<rparr>] (Date 0)
     \<noteq> Num 0"
  by (simp add: predictValueAt_def parseHistoryEntryDatetime_def orElse_def)

text \<open>
  C2. For a non-empty history whose last entry has a timestamp that resolves to the
  instant \<open>ms\<close> and whose views are a non-negative integer \<open>n\<close>, the prediction at
  that instant is exactly \<open>n\<close>.
\<close>

theorem predictValueAt_anchor:
  assumes "history \<noteq> []"
    and "parseHistoryEntryDatetime (last history) = Some (Date ms)"
    and "views (last history) = Num (of_nat n)"
  shows "predictValueAt history (Date ms) = Num (of_nat n)"
proof -
  obtain s where s: "orElse (slope_final (computeAdvancedSlope history)) (Num 0) = Num s"
    using orElse_Num by blast
  have v: "orElse (views (last history)) (Num 0) = Num (of_nat n)"
    by (simp add: assms(3) orElse_def)
  have "\<lfloor>real n + 1 / 2\<rfloor> = int n" by linarith
  then show ?thesis
    using assms s v
    by (simp add: predictValueAt_def nth_last Let_def)
qed

theorem predictValueAt_anchor_witness:
  "predictValueAt
     [\<lparr>datetime = Some (Date 0), date = None, views = Num 1000, predicted = False\<rparr>,
      \<lparr>datetime = Some (Date 1800000), date = None, views = Num 1100, predicted = False\<rparr>]
     (Date 1800000) = Num 1100"
  using predictValueAt_anchor[of
     "[\<lparr>datetime = Some (Date 0), date = None, views = Num 1000, predicted = False\<rparr>,
       \<lparr>datetime = Some (Date 1800000), date = None, views = Num 1100, predicted = False\<rparr>]"
     1800000 1100]
  by (simp add: parseHistoryEntryDatetime_def)

section \<open>The delta is never negative\<close>

lemma predictValueAt_Num: "\<exists>x. predictValueAt history target = Num x"
proof (cases "history = []")
  case True
  then show ?thesis by (simp add: predictValueAt_def)
next
  case False
  obtain x where x: "orElse (views (last history)) (Num 0) = Num x"
    using orElse_Num by blast
  show ?thesis
  proof (cases "parseHistoryEntryDatetime (last history)")
    case None
    then show ?thesis using False x by (simp add: predictValueAt_def nth_last)
  next
    case (Some d)
    define p where "p = Num x + orElse (slope_final (computeAdvancedSlope history)) (Num 0) *
       ((getTime target - getTime d) / Num 60000)"
    show ?thesis using False x Some
      by (cases p) (auto simp add: predictValueAt_def nth_last Let_def p_def)
  qed
qed

text \<open>
  C3. For every history, every \<^verbatim>\<open>days\<close> value (\<open>NaN\<close> included), every clock reading
  and time zone, \<^verbatim>\<open>calcDeltaWithPrediction\<close> returns a number that is \<open>\<ge> 0\<close>.
\<close>

theorem calcDelta_nonneg: "le (Num 0) (calcDeltaWithPrediction tz now history days)"
proof -
  obtain a where a: "predictValueAt history (Date now) = Num a"
    using predictValueAt_Num by blast
  obtain b where b: "predictValueAt history (baseTick tz now history days) = Num b"
    using predictValueAt_Num by blast
  show ?thesis
    by (simp add: calcDeltaWithPrediction_def a b Let_def)
qed

text \<open>An instance: a history whose views fall from 500 to 100.\<close>

theorem calcDelta_nonneg_witness:
  "le (Num 0) (calcDeltaWithPrediction (0, []) 864000000
     [\<lparr>datetime = Some (Date 0), date = None, views = Num 500, predicted = False\<rparr>,
      \<lparr>datetime = Some (Date 1800000), date = None, views = Num 100, predicted = False\<rparr>]
     (Num 7))"
  by (rule calcDelta_nonneg)

section \<open>Half-hour ticks\<close>

lemma LocalTime_const [simp]: "LocalTime (c, []) t = t + c"
  by (simp add: LocalTime_def)

lemma UTC_const [simp]: "UTC (c, []) l = l - c"
  by (simp add: UTC_def)












section \<open>The base tick of the delta window\<close>

text \<open>
  C9. When the history has a first entry with a timestamp (\<^verbatim>\<open>earliestHistoryTime\<close>,
  the time of \<^verbatim>\<open>history[0]\<close>) and the floored target tick is earlier than the floored
  time of that entry, the base tick is the floored time of that entry, and the delta
  is measured from the prediction there.
\<close>

theorem baseTick_clamped:
  assumes "earliestHistoryTime history = Some ft"
    and "lt (getTime (targetTick tz now days)) (getTime (floorToHalfHour tz ft))"
  shows "baseTick tz now history days = floorToHalfHour tz ft \<and>
         calcDeltaWithPrediction tz now history days =
           Math_max (Num 0) (predictValueAt history (Date now) -
                             predictValueAt history (floorToHalfHour tz ft))"
proof -
  have b: "baseTick tz now history days = floorToHalfHour tz ft"
    using assms by (simp add: baseTick_def Let_def)
  have "history \<noteq> []"
    using assms(1) by (auto simp: earliestHistoryTime_def)
  then show ?thesis
    using b by (simp add: calcDeltaWithPrediction_def Let_def)
qed

text \<open>
  The scenario of the claim: a delta over 7 days, taken 10 days after the epoch on a
  history that starts 2 days before; the target tick is day 3, the base tick is the
  half-hour tick of the first entry.
\<close>

theorem baseTick_clamped_witness:
  "targetTick (0, []) 864000777 (Num 7) = Date 259200000 \<and>
   baseTick (0, []) 864000777
     [\<lparr>datetime = Some (Date 691200777), date = None, views = Num 100, predicted = False\<rparr>,
      \<lparr>datetime = Some (Date 777600777), date = None, views = Num 200, predicted = False\<rparr>]
     (Num 7) = Date 691200000"
  using baseTick_clamped[of
     "[\<lparr>datetime = Some (Date 691200777), date = None, views = Num 100, predicted = False\<rparr>,
       \<lparr>datetime = Some (Date 777600777), date = None, views = Num 200, predicted = False\<rparr>]"
     "Date 691200777" "(0, [])" 864000777 "Num 7"]
  by (simp add: earliestHistoryTime_def parseHistoryEntryDatetime_def targetTick_def
      floorToHalfHour_def toInteger_def Let_def)

section \<open>The cleaned sequence is strictly increasing\<close>

lemma toPoint_validPt:
  assumes "toPoint h = Some p" and "parseHistoryEntryDatetime h \<noteq> Some InvalidDate"
  shows "validPt p"
proof (cases "parseHistoryEntryDatetime h")
  case None
  with assms show ?thesis by (simp add: toPoint_def)
next
  case (Some d)
  with assms obtain ms where "d = Date ms" by (cases d) auto
  with Some assms show ?thesis by (auto simp: toPoint_def validPt_def)
qed

lemma validPt_map_filter:
  "validTimes history \<Longrightarrow> p \<in> set (List.map_filter toPoint history) \<Longrightarrow> validPt p"
  by (auto simp: set_map_filter validTimes_def intro: toPoint_validPt)

lemma validPt_cmp:
  "validPt x \<Longrightarrow> validPt y \<Longrightarrow>
     gt (getTime (pt_t x) - getTime (pt_t y)) (Num 0) \<longleftrightarrow> \<not> ptKey x \<le> ptKey y"
  by (cases "pt_t x"; cases "pt_t y") (auto simp: validPt_def)

lemma validPt_near:
  assumes "validPt x" and "validPt y"
  shows "lt (Math_abs (pt_tsMin x - pt_tsMin y)) (Num (1 / 1000000)) \<longleftrightarrow> ptKey x = ptKey y"
proof -
  have "\<bar>real_of_int a / 60000 - real_of_int b / 60000\<bar> < 1 / 1000000 \<longleftrightarrow> a = b" for a b :: int
  proof
    assume h: "\<bar>real_of_int a / 60000 - real_of_int b / 60000\<bar> < 1 / 1000000"
    have "\<bar>real_of_int a / 60000 - real_of_int b / 60000\<bar> = \<bar>real_of_int (a - b)\<bar> / 60000"
      by (simp add: field_simps)
    with h have "\<bar>real_of_int (a - b)\<bar> < 1" by simp
    then have "\<bar>a - b\<bar> < 1" by linarith
    then show "a = b" by simp
  qed simp
  then show ?thesis using assms by (simp add: validPt_def)
qed

lemma insertJS_insort:
  "validPt x \<Longrightarrow> \<forall>y \<in> set ys. validPt y \<Longrightarrow>
     insertJS (\<lambda>a b. getTime (pt_t a) - getTime (pt_t b)) x ys = insort_key ptKey x ys"
  by (induction ys) (simp_all add: validPt_cmp)

lemma sortJS_sort_key:
  "\<forall>y \<in> set xs. validPt y \<Longrightarrow>
     sortJS (\<lambda>a b. getTime (pt_t a) - getTime (pt_t b)) xs = sort_key ptKey xs"
proof (induction xs)
  case Nil
  show ?case by (simp add: sortJS_def)
next
  case (Cons x xs)
  then have "sortJS (\<lambda>a b. getTime (pt_t a) - getTime (pt_t b)) xs = sort_key ptKey xs" by simp
  moreover have "\<forall>y \<in> set (sort_key ptKey xs). validPt y" using Cons.prems by simp
  ultimately show ?case
    using Cons.prems insertJS_insort[of x "sort_key ptKey xs"]
    by (simp add: sortJS_def sort_key_def)
qed

lemma update_last: "acc \<noteq> [] \<Longrightarrow> acc[length acc - Suc 0 := p] = butlast acc @ [p]"
  by (induction acc rule: rev_induct) simp_all

lemma uniqueLoop_step:
  assumes "\<forall>q \<in> set acc. validPt q" and "validPt p"
  shows "uniqueLoop acc (p # ps) = uniqueLoop (stepU acc p) ps"
proof (cases "acc = []")
  case True
  then show ?thesis by (simp add: stepU_def)
next
  case False
  then have "validPt (last acc)" using assms(1) by simp
  then show ?thesis
    using False validPt_near[of "last acc" p] assms(2) by (simp add: stepU_def update_last)
qed

lemma stepU_valid: "\<forall>q \<in> set acc. validPt q \<Longrightarrow> validPt p \<Longrightarrow> \<forall>q \<in> set (stepU acc p). validPt q"
  by (auto simp: stepU_def dest: in_set_butlastD)

lemma stepU_inv:
  assumes "loopInv acc (p # ps)"
  shows "loopInv (stepU acc p) ps"
proof (cases "acc = []")
  case True
  with assms show ?thesis by (simp add: loopInv_def stepU_def)
next
  case False
  then obtain bs b where acc: "acc = bs @ [b]" by (metis rev_exhaust)
  show ?thesis
  proof (cases "ptKey b = ptKey p")
    case True
    with assms acc show ?thesis
      by (auto simp: loopInv_def stepU_def sorted_wrt_append sorted_append)
  next
    case False
    with assms acc have "ptKey b < ptKey p"
      by (auto simp: loopInv_def sorted_append)
    with assms acc False show ?thesis
      by (fastforce simp: loopInv_def stepU_def sorted_wrt_append sorted_append)
  qed
qed

lemma uniqueLoop_sorted:
  "\<forall>q \<in> set (acc @ ps). validPt q \<Longrightarrow> loopInv acc ps \<Longrightarrow> sorted_wrt (<) (map ptKey (uniqueLoop acc ps))"
proof (induction ps arbitrary: acc)
  case Nil
  then show ?case by (simp add: loopInv_def)
next
  case (Cons p ps)
  have v: "\<forall>q \<in> set acc. validPt q" "validPt p" using Cons.prems(1) by simp_all
  have "\<forall>q \<in> set (stepU acc p @ ps). validPt q"
    using stepU_valid[OF v] Cons.prems(1) by auto
  then show ?case
    using Cons.IH[of "stepU acc p"] stepU_inv[OF Cons.prems(2)] uniqueLoop_step[OF v]
    by simp
qed






lemma preprocessHistory_sort_key:
  assumes "validTimes history"
  shows "preprocessHistory history = uniqueLoop [] (sort_key ptKey (List.map_filter toPoint history))"
  using validPt_map_filter[OF assms]
  by (simp add: preprocessHistory_def Let_def sortJS_sort_key)





section \<open>The failure path of the gap filler\<close>














section \<open>The slope estimate is never negative\<close>

lemma isFinite_iff: "isFinite a \<longleftrightarrow> a = Num (realOf a)"
  by (cases a) simp_all

lemma goodPt_tsMin: "goodPt p \<Longrightarrow> pt_tsMin p = Num (tmin p)"
  by (simp add: goodPt_def validPt_def tmin_def)

lemma isFinite_obtain:
  assumes "isFinite a"
  obtains x where "a = Num x" and "realOf a = x"
  using assms by (cases a) simp_all

lemma goodPt_v:
  assumes "goodPt p"
  obtains a where "pt_v p = Num a" and "realOf (pt_v p) = a"
  using assms isFinite_obtain[of "pt_v p"] by (auto simp: goodPt_def)

lemma toPoint_v_finite: "toPoint h = Some p \<Longrightarrow> isFinite (pt_v p)"
  using orElse_Num[of "views h" 0]
  by (auto simp: toPoint_def split: option.splits)

lemma goodPt_map_filter:
  "validTimes history \<Longrightarrow> p \<in> set (List.map_filter toPoint history) \<Longrightarrow> goodPt p"
  using validPt_map_filter[of history p]
  by (auto simp: goodPt_def set_map_filter intro: toPoint_v_finite)

lemma preprocessHistory_subset:
  "set (preprocessHistory history) \<subseteq> set (List.map_filter toPoint history)"
  using set_uniqueLoop[of "[]"
        "sortJS (\<lambda>a b. getTime (pt_t a) - getTime (pt_t b)) (List.map_filter toPoint history)"]
  by (simp add: preprocessHistory_def Let_def set_sortJS)

lemma preprocessHistory_goodPt:
  "validTimes history \<Longrightarrow> p \<in> set (preprocessHistory history) \<Longrightarrow> goodPt p"
  using preprocessHistory_subset goodPt_map_filter by blast

lemma preprocessHistory_keys_sorted:
  assumes "validTimes history"
  shows "sorted_wrt (\<lambda>p q. ptKey p < ptKey q) (preprocessHistory history)"
proof -
  define srt where "srt = sort_key ptKey (List.map_filter toPoint history)"
  have vs: "\<forall>q \<in> set ([] @ srt). validPt q"
    using validPt_map_filter[OF assms] by (simp add: srt_def)
  have i: "loopInv [] srt" by (simp add: loopInv_def srt_def)
  have "sorted_wrt (<) (map ptKey (uniqueLoop [] srt))"
    using uniqueLoop_sorted[OF vs i] .
  then show ?thesis
    using preprocessHistory_sort_key[OF assms] by (simp add: srt_def sorted_wrt_map)
qed

lemma tmin_less: "ptKey p < ptKey q \<Longrightarrow> tmin p < tmin q"
  by (simp add: tmin_def divide_strict_right_mono)

lemma segRates_good:
  assumes g: "\<forall>p \<in> set pts. goodPt p"
    and s: "sorted_wrt (\<lambda>p q. ptKey p < ptKey q) pts"
  shows "segRates pts = map (\<lambda>i. Num (segRate pts i)) [0..<length pts - 1]"
proof -
  have "(let dv = pt_v (pts ! (i + 1)) - pt_v (pts ! i);
             dt = pt_tsMin (pts ! (i + 1)) - pt_tsMin (pts ! i)
         in if le dt (Num 0) then [] else [dv / dt]) = [Num (segRate pts i)]"
    if i: "i \<in> set [0..<length pts - 1]" for i
  proof -
    have lt: "i < length pts" "i + 1 < length pts" using i by auto
    then have gi: "goodPt (pts ! i)" "goodPt (pts ! (i + 1))" using g by simp_all
    have "ptKey (pts ! i) < ptKey (pts ! (i + 1))"
      using s lt by (simp add: sorted_wrt_iff_nth_less)
    then have "tmin (pts ! i) < tmin (pts ! (i + 1))" by (rule tmin_less)
    moreover obtain a where a: "pt_v (pts ! i) = Num a" "realOf (pt_v (pts ! i)) = a"
      using goodPt_v[OF gi(1)] by blast
    moreover obtain b where b: "pt_v (pts ! (i + 1)) = Num b" "realOf (pt_v (pts ! (i + 1))) = b"
      using goodPt_v[OF gi(2)] by blast
    ultimately show ?thesis
      using goodPt_tsMin[OF gi(1)] goodPt_tsMin[OF gi(2)]
      by (simp add: Let_def segRate_def)
  qed
  then have eq: "map (\<lambda>i. let dv = pt_v (pts ! (i + 1)) - pt_v (pts ! i);
             dt = pt_tsMin (pts ! (i + 1)) - pt_tsMin (pts ! i)
         in if le dt (Num 0) then [] else [dv / dt]) [0..<length pts - 1]
        = map (\<lambda>i. [Num (segRate pts i)]) [0..<length pts - 1]"
    by (intro map_cong) simp_all
  show ?thesis
    unfolding segRates_def eq by (simp add: concat_map_singleton)
qed

lemma sortJS_nth_in: "i < length arr \<Longrightarrow> sortJS cmp arr ! i \<in> set arr"
  using set_sortJS[of cmp arr] length_sortJS[of cmp arr] nth_mem[of i "sortJS cmp arr"] by simp

lemma median_finite:
  assumes "\<forall>x \<in> set arr. isFinite x"
  shows "isFinite (median arr)"
proof (cases "arr = []")
  case True
  then show ?thesis by (simp add: median_def)
next
  case False
  then have n: "0 < length arr" by simp
  define s where "s = sortJS (\<lambda>a b. a - b) arr"
  have len: "length s = length arr" by (simp add: s_def length_sortJS)
  have m: "length arr div 2 < length arr" using n by simp
  have "isFinite (s ! (length arr div 2))"
    using sortJS_nth_in[OF m] assms by (simp add: s_def)
  then obtain a where a: "s ! (length arr div 2) = Num a" by (rule isFinite_obtain)
  have "isFinite (s ! (length arr div 2 - 1))"
    using sortJS_nth_in[of "length arr div 2 - 1" arr] m assms by (simp add: s_def)
  then obtain b where b: "s ! (length arr div 2 - 1) = Num b" by (rule isFinite_obtain)
  show ?thesis
    using False a b by (simp add: median_def Let_def s_def[symmetric] len)
qed

lemma ema_fold_finite:
  "\<forall>x \<in> set rs. isFinite x \<Longrightarrow>
     isFinite (foldl (\<lambda>s x. Num al * x + (Num 1 - Num al) * s) (Num s0) rs)"
proof (induction rs arbitrary: s0)
  case Nil
  show ?case by simp
next
  case (Cons x rs)
  then obtain a where "x = Num a" by (auto simp: isFinite_iff)
  then show ?case using Cons by simp
qed

lemma emaOfRates_finite:
  "\<forall>x \<in> set rates. isFinite x \<Longrightarrow> isFinite (emaOfRates rates (Num al))"
proof (cases rates)
  case Nil
  then show ?thesis by (simp add: emaOfRates_def)
next
  case (Cons x rs)
  assume a: "\<forall>x \<in> set rates. isFinite x"
  with Cons obtain y where "x = Num y" by (auto simp: isFinite_iff)
  with a Cons show ?thesis
    using ema_fold_finite[of rs al y] by (simp add: emaOfRates_def)
qed

lemma goodPoints_props:
  assumes "2 \<le> length pts" and "sorted_wrt R pts"
  shows "2 \<le> length (goodPoints pts m d) \<and> set (goodPoints pts m d) \<subseteq> set pts \<and>
         sorted_wrt R (goodPoints pts m d)"
proof (cases "length (map (\<lambda>i. pts ! i) (goodIdx pts m d)) < 2")
  case True
  then show ?thesis using assms by (simp add: goodPoints_def Let_def)
next
  case False
  define js where "js = goodIdx pts m d"
  have g: "goodPoints pts m d = map (\<lambda>i. pts ! i) js"
    using False by (simp add: goodPoints_def Let_def js_def)
  have in_range: "set js \<subseteq> {..<length pts}" by (auto simp: js_def goodIdx_def)
  have "sorted_wrt (<) js" by (simp add: js_def goodIdx_def sorted_wrt_filter)
  then have "sorted_wrt (\<lambda>i j. R (pts ! i) (pts ! j)) js"
  proof (rule sorted_wrt_mono_rel[rotated])
    fix i j assume "i \<in> set js" "j \<in> set js" "i < j"
    then show "R (pts ! i) (pts ! j)"
      using in_range assms(2) by (auto simp: sorted_wrt_iff_nth_less)
  qed
  then have "sorted_wrt R (map (\<lambda>i. pts ! i) js)" by (simp add: sorted_wrt_map)
  moreover have "set (map (\<lambda>i. pts ! i) js) \<subseteq> set pts" using in_range by auto
  ultimately show ?thesis using False g by (simp add: js_def)
qed

lemma regSums_fold:
  assumes "\<forall>i<n. ws ! i = Num (w i) \<and> xs ! i = Num (x i) \<and> ys ! i = Num (y i)"
    and "k \<le> n"
  shows "foldl (\<lambda>(S, Sx, Sy, Sxx, Sxy) i.
        let w = ws ! i; x = xs ! i; y = ys ! i
        in (S + w, Sx + w * x, Sy + w * y, Sxx + w * x * x, Sxy + w * x * y))
       (Num 0, Num 0, Num 0, Num 0, Num 0) [0..<k] =
     (Num (\<Sum>i<k. w i), Num (\<Sum>i<k. w i * x i), Num (\<Sum>i<k. w i * y i),
      Num (\<Sum>i<k. w i * x i * x i), Num (\<Sum>i<k. w i * x i * y i))"
  using assms(2)
proof (induction k)
  case 0
  show ?case by simp
next
  case (Suc k)
  then have "k < n" by simp
  with assms(1) have "ws ! k = Num (w k)" "xs ! k = Num (x k)" "ys ! k = Num (y k)" by simp_all
  with Suc show ?case by (simp add: Let_def)
qed

lemma regSums_Num:
  assumes "length xs = n"
    and "\<forall>i<n. ws ! i = Num (w i) \<and> xs ! i = Num (x i) \<and> ys ! i = Num (y i)"
  shows "regSums ws xs ys =
     (Num (\<Sum>i<n. w i), Num (\<Sum>i<n. w i * x i), Num (\<Sum>i<n. w i * y i),
      Num (\<Sum>i<n. w i * x i * x i), Num (\<Sum>i<n. w i * x i * y i))"
  unfolding regSums_def assms(1) by (rule regSums_fold[OF assms(2) order_refl])

lemma rSquared_finite: "\<exists>c. rSquared ss = Num c"
proof -
  obtain a b where ss: "ss = (a, b)" by (cases ss)
  show ?thesis
    by (cases a; cases b) (auto simp: ss rSquared_def Let_def)
qed

lemma confidence_finite: "\<exists>c. confidence (Num a) n = Num c"
proof -
  define z where "z = a * (real (min 6 n) / 6)"
  have e: "Num a * (Num (real (min 6 n)) / Num 6) = Num z" by (simp add: z_def)
  show ?thesis unfolding confidence_def Let_def e by auto
qed

lemma blendSlope_nonneg: "\<exists>b. blendSlope (Num c) (Num r) (Num e) = Num b \<and> 0 \<le> b"
  by (auto simp: blendSlope_def Let_def max_def)

lemma capSlope_nonneg: "0 \<le> b \<Longrightarrow> \<exists>x. capSlope (Num m) (Num b) = Num x \<and> 0 \<le> x"
  by (auto simp: capSlope_def Let_def sgn_if)

lemma regression_fst:
  "fst (regression G xs ys (Num S, Num Sx, Num Sy, Num Sxx, Num Sxy)) =
     (if \<bar>S * Sxx - Sx * Sx\<bar> > 1 / 10 ^ 9
      then Num ((S * Sxy - Sx * Sy) / (S * Sxx - Sx * Sx))
      else (ys ! (length ys - 1) - ys ! 0) /
           orElse (pt_tsMin (G ! (length G - 1)) - pt_tsMin (G ! 0)) (Num 1))"
  by (auto simp: regression_def Let_def)

text \<open>The slope of the regression block on good points in strictly increasing order.\<close>

lemma weightedFit_good:
  assumes g: "\<forall>p \<in> set G. goodPt p"
    and len: "2 \<le> length G"
    and s: "sorted_wrt (\<lambda>p q. ptKey p < ptKey q) G"
  defines "m \<equiv> length G"
  defines "x \<equiv> \<lambda>i. tmin (G ! i) - tmin (G ! (m - 1))"
  defines "y \<equiv> \<lambda>i. realOf (pt_v (G ! i))"
  defines "w \<equiv> \<lambda>i. exp ((0 - \<bar>x i\<bar> / 180) * ln 2)"
  defines "S \<equiv> \<Sum>i<m. w i" and "Sx \<equiv> \<Sum>i<m. w i * x i" and "Sy \<equiv> \<Sum>i<m. w i * y i"
    and "Sxx \<equiv> \<Sum>i<m. w i * x i * x i" and "Sxy \<equiv> \<Sum>i<m. w i * x i * y i"
  shows "\<exists>c. weightedFit G =
           (if \<bar>S * Sxx - Sx * Sx\<bar> > 1 / 10 ^ 9
            then Num ((S * Sxy - Sx * Sy) / (S * Sxx - Sx * Sx))
            else Num ((y (m - 1) - y 0) / (tmin (G ! (m - 1)) - tmin (G ! 0))), Num c)"
proof -
  define refTs where "refTs = pt_tsMin (G ! (m - 1))"
  define xs where "xs = map (\<lambda>p. pt_tsMin p - refTs) G"
  define ys where "ys = map pt_v G"
  define ws where "ws = map weight xs"
  have m2: "2 \<le> m" using len by (simp add: m_def)
  have gi: "goodPt (G ! i)" if "i < m" for i using g that by (simp add: m_def)
  have il: "m - 1 < m" and i0: "0 < m" using m2 by simp_all
  have tl: "pt_tsMin (G ! (m - 1)) = Num (tmin (G ! (m - 1)))"
    by (rule goodPt_tsMin[OF gi[OF il]])
  have tf: "pt_tsMin (G ! 0) = Num (tmin (G ! 0))"
    by (rule goodPt_tsMin[OF gi[OF i0]])
  have refTs: "refTs = Num (tmin (G ! (m - 1)))"
    using tl by (simp add: refTs_def)
  have xi: "xs ! i = Num (x i)" if "i < m" for i
    using goodPt_tsMin[OF gi[OF that]] that by (simp add: xs_def refTs x_def m_def)
  have yi: "ys ! i = Num (y i)" if im: "i < m" for i
  proof -
    obtain a where "pt_v (G ! i) = Num a" "realOf (pt_v (G ! i)) = a"
      using goodPt_v[OF gi[OF im]] by blast
    then show ?thesis using im by (simp add: ys_def y_def m_def)
  qed
  have wi: "ws ! i = Num (w i)" if "i < m" for i
    using xi[OF that] that by (simp add: ws_def weight_def w_def xs_def m_def)
  have lx: "length xs = m" by (simp add: xs_def m_def)
  have acc: "regSums ws xs ys = (Num S, Num Sx, Num Sy, Num Sxx, Num Sxy)"
    unfolding S_def Sx_def Sy_def Sxx_def Sxy_def
    by (rule regSums_Num[OF lx]) (simp add: xi yi wi)
  have "ptKey (G ! 0) < ptKey (G ! (m - 1))"
    using s m2 by (simp add: sorted_wrt_iff_nth_less m_def)
  then have dt: "tmin (G ! 0) < tmin (G ! (m - 1))" by (rule tmin_less)
  have t0: "pt_tsMin (G ! (length G - 1)) - pt_tsMin (G ! 0) = Num (tmin (G ! (m - 1)) - tmin (G ! 0))"
    unfolding m_def[symmetric] tl tf by simp
  have totalDt: "orElse (pt_tsMin (G ! (length G - 1)) - pt_tsMin (G ! 0)) (Num 1)
                 = Num (tmin (G ! (m - 1)) - tmin (G ! 0))"
    unfolding t0 using dt by (simp add: orElse_def)
  have totalDv: "ys ! (length ys - 1) - ys ! 0 = Num (y (m - 1) - y 0)"
    using yi[OF il] yi[OF i0] by (simp add: ys_def m_def)
  have reg: "fst (regression G xs ys (regSums ws xs ys)) =
           (if \<bar>S * Sxx - Sx * Sx\<bar> > 1 / 10 ^ 9
            then Num ((S * Sxy - Sx * Sy) / (S * Sxx - Sx * Sx))
            else Num ((y (m - 1) - y 0) / (tmin (G ! (m - 1)) - tmin (G ! 0))))"
    unfolding acc regression_fst totalDt totalDv using dt by simp
  obtain c where c: "rSquared (resSums ws xs ys (fst (regression G xs ys (regSums ws xs ys)))
       (snd (regression G xs ys (regSums ws xs ys)))
       (case regSums ws xs ys of (S, Sx, Sy, Sxx, Sxy) \<Rightarrow> Sy / S)) = Num c"
    using rSquared_finite by blast
  have "weightedFit G = (fst (regression G xs ys (regSums ws xs ys)), Num c)"
    unfolding weightedFit_def Let_def
    unfolding refTs_def[symmetric] m_def[symmetric] xs_def[symmetric] ys_def[symmetric] ws_def[symmetric]
    by (simp only: c)
  then show ?thesis unfolding reg by blast
qed

lemma segRates_finite:
  assumes "\<forall>p \<in> set pts. goodPt p" and "sorted_wrt (\<lambda>p q. ptKey p < ptKey q) pts"
  shows "\<forall>x \<in> set (segRates pts). isFinite x"
  unfolding segRates_good[OF assms] by simp

lemma weightedFit_finite:
  assumes "\<forall>p \<in> set G. goodPt p" and "2 \<le> length G"
    and "sorted_wrt (\<lambda>p q. ptKey p < ptKey q) G"
  shows "\<exists>s c. weightedFit G = (Num s, Num c)"
  using weightedFit_good[OF assms] by (auto split: if_splits)

lemma slope_final_unfold:
  assumes "2 \<le> length (preprocessHistory history)"
    and "segRates (preprocessHistory history) \<noteq> []"
  shows "slope_final (computeAdvancedSlope history) =
     capSlope (median (segRates (preprocessHistory history)))
       (blendSlope
          (confidence
             (snd (weightedFit (goodPoints (preprocessHistory history)
                     (median (segRates (preprocessHistory history)))
                     (orElse (mad (segRates (preprocessHistory history))) (Num (1 / 10 ^ 6))))))
             (length (goodPoints (preprocessHistory history)
                     (median (segRates (preprocessHistory history)))
                     (orElse (mad (segRates (preprocessHistory history))) (Num (1 / 10 ^ 6))))))
          (fst (weightedFit (goodPoints (preprocessHistory history)
                     (median (segRates (preprocessHistory history)))
                     (orElse (mad (segRates (preprocessHistory history))) (Num (1 / 10 ^ 6))))))
          (emaOfRates (segRates (preprocessHistory history)) (Num (1 / 2))))"
  using assms by (simp add: computeAdvancedSlope_def Let_def)

text \<open>
  For every history whose present timestamps all parse, \<^verbatim>\<open>slope_final\<close> is a number
  \<open>\<ge> 0\<close>: the blend, when negative, is replaced by
  \<^verbatim>\<open>Math.max(0, slope_ema, slope_reg, 0)\<close>, and the cap keeps the sign.
\<close>

lemma slope_final_nonneg:
  assumes "validTimes history"
  shows "le (Num 0) (slope_final (computeAdvancedSlope history))"
proof -
  define pts where "pts = preprocessHistory history"
  have g: "\<forall>p \<in> set pts. goodPt p"
    using preprocessHistory_goodPt[OF assms] by (simp add: pts_def)
  have s: "sorted_wrt (\<lambda>p q. ptKey p < ptKey q) pts"
    using preprocessHistory_keys_sorted[OF assms] by (simp add: pts_def)
  show ?thesis
  proof (cases "2 \<le> length pts \<and> segRates pts \<noteq> []")
    case False
    then show ?thesis
      by (auto simp: computeAdvancedSlope_def Let_def pts_def)
  next
    case True
    define medR where "medR = median (segRates pts)"
    define G where "G = goodPoints pts medR (orElse (mad (segRates pts)) (Num (1 / 10 ^ 6)))"
    have fin: "\<forall>x \<in> set (segRates pts). isFinite x"
      by (rule segRates_finite[OF g s])
    obtain m where m: "medR = Num m"
      using median_finite[OF fin] isFinite_obtain unfolding medR_def by blast
    obtain e where e: "emaOfRates (segRates pts) (Num (1 / 2)) = Num e"
      using emaOfRates_finite[OF fin] isFinite_obtain by blast
    have G: "2 \<le> length G" "set G \<subseteq> set pts" "sorted_wrt (\<lambda>p q. ptKey p < ptKey q) G"
      using goodPoints_props[OF _ s, of medR] True by (simp_all add: G_def)
    then have gG: "\<forall>p \<in> set G. goodPt p" using g by blast
    obtain r c where fit: "weightedFit G = (Num r, Num c)"
      using weightedFit_finite[OF gG G(1) G(3)] by blast
    obtain c' where c': "confidence (Num c) (length G) = Num c'"
      using confidence_finite by blast
    obtain b where b: "blendSlope (Num c') (Num r) (Num e) = Num b" "0 \<le> b"
      using blendSlope_nonneg by blast
    obtain x where x: "capSlope (Num m) (Num b) = Num x" "0 \<le> x"
      using capSlope_nonneg[OF b(2)] by blast
    have "slope_final (computeAdvancedSlope history) = Num x"
      using slope_final_unfold[of history] True
      unfolding pts_def[symmetric] medR_def[symmetric] G_def[symmetric]
      by (simp add: fit m e c' b x)
    then show ?thesis using x(2) by simp
  qed
qed

text \<open>
  C8: the code at a history with a timestamp string that does not parse. The entry
  stays in the cleaned sequence with the time \<open>NaN\<close>; the segment rate, the EMA and
  the blend are \<open>NaN\<close>. The test \<^verbatim>\<open>!isFinite(slope_final)\<close> catches the blend, but its
  replacement \<^verbatim>\<open>Math.max(0, slope_ema, slope_reg, 0)\<close> is \<open>NaN\<close> again, and so is the
  result: \<^verbatim>\<open>slope_final\<close> is not \<open>\<ge> 0\<close> there, against the property that holds for
  every history whose timestamps parse.
\<close>

theorem slope_final_nan:
  "slope_final (computeAdvancedSlope
     [\<lparr>datetime = Some InvalidDate, date = None, views = Num 0, predicted = False\<rparr>,
      \<lparr>datetime = Some (Date 0), date = None, views = Num 1, predicted = False\<rparr>]) = NaN \<and>
   \<not> le (Num 0) (slope_final (computeAdvancedSlope
     [\<lparr>datetime = Some InvalidDate, date = None, views = Num 0, predicted = False\<rparr>,
      \<lparr>datetime = Some (Date 0), date = None, views = Num 1, predicted = False\<rparr>]))"
proof -
  define h where "h = [\<lparr>datetime = Some InvalidDate, date = None, views = Num 0, predicted = False\<rparr>,
      \<lparr>datetime = Some (Date 0), date = None, views = Num 1, predicted = False\<rparr>]"
  define p0 where "p0 = \<lparr>pt_t = InvalidDate, pt_tsMin = NaN, pt_v = Num 0\<rparr>"
  define p1 where "p1 = \<lparr>pt_t = Date 0, pt_tsMin = Num 0, pt_v = Num 1\<rparr>"
  have pts: "preprocessHistory h = [p0, p1]"
    by (simp add: h_def p0_def p1_def preprocessHistory_def List.map_filter_simps toPoint_def
        parseHistoryEntryDatetime_def sortJS_def orElse_def)
  have rates: "segRates [p0, p1] = [NaN]"
    by (simp add: segRates_def p0_def p1_def)
  have med: "median [NaN] = NaN" by (simp add: median_def sortJS_def)
  have ema: "emaOfRates [NaN] (Num (1 / 2)) = NaN" by (simp add: emaOfRates_def)
  have blend: "blendSlope c r NaN = NaN" for c r
    by (cases c; cases r) (simp_all add: blendSlope_def Let_def)
  have cap: "capSlope NaN NaN = NaN" by (simp add: capSlope_def Let_def)
  have "slope_final (computeAdvancedSlope h) = NaN"
    using slope_final_unfold[of h] by (simp add: pts rates med ema blend cap)
  then show ?thesis by (simp add: h_def)
qed

end
